theory Spec2Isabelle
  imports Complex_Main
begin

section \<open>BRS auto centering: the decision core of \<open>brs_control\<close>\<close>

text \<open>
  The development follows \<open>src/brs_utils/auto_centering/auto_centering.py\<close>.
  Python floats are modelled as real numbers: comparisons, subtraction, absolute value,
  square root and rounding are the exact operations, so NaN, infinities and rounding
  error of the binary format are outside the model. Exceptions are values of type
  \<open>error\<close>, returned on the left of a sum.
\<close>

datatype error = EzcaError | ValueError | TypeError | NameError | KeyboardInterrupt

subsection \<open>Threshold decision (lines 153 to 176)\<close>

text \<open>
  The source keeps the decision in the variable \<open>increase_temperature\<close>:
  \<open>True\<close> to increase the temperature, \<open>False\<close> to decrease it and \<open>None\<close> to do
  nothing. The three values are the directions Increase, Decrease and Hold.
\<close>

type_synonym direction = "bool option"

abbreviation Increase :: direction where "Increase \<equiv> Some True"
abbreviation Decrease :: direction where "Decrease \<equiv> Some False"
abbreviation Hold :: direction where "Hold \<equiv> None"

definition increase_temperature :: "real \<Rightarrow> int \<Rightarrow> int \<Rightarrow> bool \<Rightarrow> direction" where
  "increase_temperature drift threshold_lower threshold_upper control_negated =
     (if drift > of_int threshold_upper then
        (if control_negated then Some True else Some False)
      else if drift < of_int threshold_lower then
        (if control_negated then Some False else Some True)
      else None)"

subsection \<open>Grid walk (lines 179 to 197)\<close>

text \<open>
  \<open>np.argmin\<close> returns the index of the first occurrence of the minimum and raises
  \<open>ValueError\<close> on an empty array. The scan keeps the best index and value seen so far
  and replaces them only by a strictly smaller value.
\<close>

fun argmin_scan :: "real list \<Rightarrow> nat \<Rightarrow> nat \<Rightarrow> real \<Rightarrow> nat" where
  "argmin_scan [] i best m = best"
| "argmin_scan (x # xs) i best m =
     (if x < m then argmin_scan xs (Suc i) i x else argmin_scan xs (Suc i) best m)"

definition np_argmin :: "real list \<Rightarrow> error + nat" where
  "np_argmin xs = (case xs of [] \<Rightarrow> Inl ValueError | x # rest \<Rightarrow> Inr (argmin_scan rest 1 0 x))"

text \<open>
  The two \<open>while\<close> loops. The index stays below \<open>length grid\<close>, so every \<open>grid ! i\<close>
  the loops read is in range.
\<close>

function walk_up :: "real list \<Rightarrow> real \<Rightarrow> nat \<Rightarrow> nat" where
  "walk_up grid control i =
     (if i < length grid - 1 \<and> grid ! i \<le> control then walk_up grid control (Suc i) else i)"
  by pat_completeness auto
termination
  by (relation "measure (\<lambda>(grid, control, i). length grid - i)") auto

function walk_down :: "real list \<Rightarrow> real \<Rightarrow> nat \<Rightarrow> nat" where
  "walk_down grid control i =
     (if 0 < i \<and> grid ! i \<ge> control then walk_down grid control (i - 1) else i)"
  by pat_completeness auto
termination
  by (relation "measure (\<lambda>(grid, control, i). i)") auto

declare walk_up.simps [simp del]
declare walk_down.simps [simp del]

text \<open>
  \<open>control_next\<close> is the value the source assigns to the variable of that name: the
  closest index is computed first, whatever the direction, and an empty grid raises there.
\<close>

definition control_next :: "real list \<Rightarrow> real \<Rightarrow> direction \<Rightarrow> error + real" where
  "control_next control_grid control dir =
     (case np_argmin (map (\<lambda>g. \<bar>g - control\<bar>) control_grid) of
        Inl e \<Rightarrow> Inl e
      | Inr i_closest \<Rightarrow>
          (case dir of
             None \<Rightarrow> Inr control
           | Some True \<Rightarrow> Inr (control_grid ! walk_up control_grid control i_closest)
           | Some False \<Rightarrow> Inr (control_grid ! walk_down control_grid control i_closest)))"

subsection \<open>The control grid (line 148)\<close>

text \<open>
  \<open>np.linspace(0, 100, num)\<close> raises \<open>ValueError\<close> for a negative \<open>num\<close>; otherwise it
  returns \<open>num\<close> points \<open>i * (100 / (num - 1))\<close>, and the single point \<open>0\<close> when
  \<open>num = 1\<close>. \<open>np.round(x, 2)\<close> multiplies by 100, rounds to the nearest integer with
  ties going to the even one, and divides by 100.
\<close>

definition np_linspace_0_100 :: "int \<Rightarrow> error + real list" where
  "np_linspace_0_100 num =
     (if num < 0 then Inl ValueError
      else if num - 1 > 0
        then Inr (map (\<lambda>i. real i * (100 / real_of_int (num - 1))) [0 ..< nat num])
        else Inr (map (\<lambda>i. real i * 100) [0 ..< nat num]))"

definition rint :: "real \<Rightarrow> int" where
  "rint x =
     (let f = \<lfloor>x\<rfloor>; d = x - of_int f
      in if d < 1 / 2 then f else if 1 / 2 < d then f + 1 else if even f then f else f + 1)"

definition np_round2 :: "real \<Rightarrow> real" where
  "np_round2 x = of_int (rint (x * 100)) / 100"

definition control_grid :: "int \<Rightarrow> error + real list" where
  "control_grid n_grid =
     (case np_linspace_0_100 n_grid of
        Inl e \<Rightarrow> Inl e
      | Inr pts \<Rightarrow> Inr (map (\<lambda>x. np_round2 (sqrt x)) pts))"

text \<open>
  The data model calls a control grid an ordered sequence of \<open>gridSize\<close> distinct,
  strictly increasing values. \<open>control_grid_ascending\<close> says that the grid computed for
  \<open>n_grid\<close> is one; \<open>control_grid_nondecreasing\<close> allows equal neighbours.
\<close>

definition control_grid_ascending :: "int \<Rightarrow> bool" where
  "control_grid_ascending n_grid =
     (case control_grid n_grid of
        Inl e \<Rightarrow> False
      | Inr g \<Rightarrow> length g = nat n_grid \<and> distinct g \<and> sorted_wrt (<) g)"

definition control_grid_nondecreasing :: "int \<Rightarrow> bool" where
  "control_grid_nondecreasing n_grid =
     (case control_grid n_grid of
        Inl e \<Rightarrow> False
      | Inr g \<Rightarrow> length g = nat n_grid \<and> sorted_wrt (\<le>) g)"

text \<open>
  Two neighbouring points \<open>i\<close> and \<open>i + 1\<close> of the grid over \<open>N\<close> intervals round to
  different values when a half-integer \<open>m / 2\<close> lies strictly between their square
  roots, counted in hundredths; in integers, when \<open>m\<close> is odd and
  \<open>4000000 * i < m * m * N < 4000000 * (i + 1)\<close>. \<open>top_pairs_ok c N i m\<close> checks this
  for the \<open>c\<close> pairs from \<open>i\<close> downwards, looking for \<open>m\<close> below the one of the pair
  above.
\<close>

definition cell_between :: "int \<Rightarrow> int \<Rightarrow> int \<Rightarrow> bool" where
  "cell_between N i m =
     (0 < m \<and> odd m \<and> 4000000 * i < m * m * N \<and> m * m * N < 4000000 * (i + 1))"

fun top_pairs_ok :: "nat \<Rightarrow> int \<Rightarrow> int \<Rightarrow> int \<Rightarrow> bool" where
  "top_pairs_ok 0 N i m = True"
| "top_pairs_ok (Suc c) N i m =
     (let m1 = (if m * m * N < 4000000 * (i + 1) then m else m - 2)
      in cell_between N i m1 \<and> top_pairs_ok c N (i - 1) (m1 - 2))"

section \<open>The control cycle, the scheduler and the main program\<close>

subsection \<open>The world outside the program\<close>

text \<open>
  The channel layer (\<open>ezca\<close>), the logger, the clock and the file system are outside
  the repository. They are modelled by one record that every effectful function takes
  and returns:
  \<^item> \<open>chan\<close> is the value each channel holds;
  \<^item> \<open>faulty k\<close> says whether the access number \<open>k\<close> (counted from 0 over reads and
    writes) raises, so a failure can be transient;
  \<^item> \<open>trace\<close> lists the channel accesses attempted so far, oldest first;
  \<^item> \<open>log\<close> lists the messages given to \<open>logger.info\<close>;
  \<^item> \<open>clock\<close> is the wall clock in seconds, advanced by \<open>time.sleep\<close> only;
  \<^item> \<open>sigint\<close> is the time at which the user interrupts the program, if ever; the
    interrupt is delivered during a sleep;
  \<^item> \<open>files\<close> maps a path to the sections, keys and values of a configuration file;
  \<^item> \<open>handlers\<close> lists the log files attached to the logger.
\<close>

datatype access = Read string | Write string real

datatype message =
    Starting real
  | Current real real
  | Higher real int
  | Lower real int
  | Within real int int
  | Setting string real real
  | DoingNothing
  | NextRun real
  | Interrupted
  | Generating string
  | Parsing "string option"

type_synonym ini = "(string \<times> (string \<times> string) list) list"

record world =
  chan :: "string \<Rightarrow> real"
  faulty :: "nat \<Rightarrow> bool"
  trace :: "access list"
  log :: "message list"
  clock :: real
  sigint :: "real option"
  files :: "string \<Rightarrow> ini option"
  handlers :: "string list"

definition info :: "message \<Rightarrow> world \<Rightarrow> world" where
  "info msg w = w\<lparr>log := log w @ [msg]\<rparr>"

definition ezca_read :: "string \<Rightarrow> world \<Rightarrow> (error + real) \<times> world" where
  "ezca_read name w =
     (if faulty w (length (trace w))
      then (Inl EzcaError, w\<lparr>trace := trace w @ [Read name]\<rparr>)
      else (Inr (chan w name), w\<lparr>trace := trace w @ [Read name]\<rparr>))"

definition ezca_write :: "string \<Rightarrow> real \<Rightarrow> world \<Rightarrow> (error + unit) \<times> world" where
  "ezca_write name v w =
     (if faulty w (length (trace w))
      then (Inl EzcaError, w\<lparr>trace := trace w @ [Write name v]\<rparr>)
      else (Inr (), w\<lparr>trace := trace w @ [Write name v], chan := (chan w)(name := v)\<rparr>))"

definition sleep :: "real \<Rightarrow> world \<Rightarrow> (error + unit) \<times> world" where
  "sleep secs w =
     (if secs < 0 then (Inl ValueError, w)
      else case sigint w of
        None \<Rightarrow> (Inr (), w\<lparr>clock := clock w + secs\<rparr>)
      | Some t \<Rightarrow>
          if clock w \<le> t \<and> t < clock w + secs
          then (Inl KeyboardInterrupt, w\<lparr>clock := t, sigint := None\<rparr>)
          else (Inr (), w\<lparr>clock := clock w + secs\<rparr>))"

subsection \<open>One control cycle: \<open>brs_control\<close> (lines 112 to 204)\<close>

definition channel_drift :: "string \<Rightarrow> string" where
  "channel_drift optics = ''ISI-GND_BRS_'' @ optics @ ''_DRIFTMON''"

definition channel_control :: "string \<Rightarrow> string" where
  "channel_control optics = ''ISI-GND_BRS_'' @ optics @ ''_HEATCTRLIN''"

definition threshold_message :: "real \<Rightarrow> int \<Rightarrow> int \<Rightarrow> message" where
  "threshold_message drift threshold_lower threshold_upper =
     (if drift > of_int threshold_upper then Higher drift threshold_upper
      else if drift < of_int threshold_lower then Lower drift threshold_lower
      else Within drift threshold_lower threshold_upper)"

text \<open>
  An exception leaves the function at the statement that raises it, with the effects
  of the statements before it.
\<close>

definition brs_control ::
  "string \<Rightarrow> bool \<Rightarrow> int \<Rightarrow> int \<Rightarrow> int \<Rightarrow> world \<Rightarrow> (error + unit) \<times> world" where
  "brs_control optics control_negated threshold_lower threshold_upper n_grid w0 =
     (let w1 = info (Starting (clock w0)) w0 in
      case ezca_read (channel_drift optics) w1 of
        (Inl e, w2) \<Rightarrow> (Inl e, w2)
      | (Inr drift_raw, w2) \<Rightarrow>
      (case ezca_read (channel_control optics) w2 of
        (Inl e, w3) \<Rightarrow> (Inl e, w3)
      | (Inr control_raw, w3) \<Rightarrow>
      (let drift = np_round2 drift_raw;
           control = np_round2 control_raw
       in case control_grid n_grid of
        Inl e \<Rightarrow> (Inl e, w3)
      | Inr grid \<Rightarrow>
      (let w4 = info (Current drift control) w3;
           dir = increase_temperature drift threshold_lower threshold_upper control_negated;
           w5 = info (threshold_message drift threshold_lower threshold_upper) w4
       in case control_next grid control dir of
        Inl e \<Rightarrow> (Inl e, w5)
      | Inr nxt \<Rightarrow>
          if control \<noteq> nxt
          then ezca_write (channel_control optics) nxt
                 (info (Setting (channel_control optics) control nxt) w5)
          else (Inr (), info DoingNothing w5)))))"

text \<open>
  The value the cycle computes from what the two channels hold: the pure part of
  \<open>brs_control\<close>, used to state what the cycle writes.
\<close>

definition decided_next ::
  "string \<Rightarrow> bool \<Rightarrow> int \<Rightarrow> int \<Rightarrow> int \<Rightarrow> world \<Rightarrow> error + real" where
  "decided_next optics control_negated threshold_lower threshold_upper n_grid w =
     (case control_grid n_grid of
        Inl e \<Rightarrow> Inl e
      | Inr grid \<Rightarrow>
          control_next grid (np_round2 (chan w (channel_control optics)))
            (increase_temperature (np_round2 (chan w (channel_drift optics)))
               threshold_lower threshold_upper control_negated))"

definition reads_succeed :: "world \<Rightarrow> bool" where
  "reads_succeed w = (\<not> faulty w (length (trace w)) \<and> \<not> faulty w (Suc (length (trace w))))"

subsection \<open>The scheduler: \<open>schedule_run\<close> (lines 78 to 109)\<close>

text \<open>
  \<open>Running\<close> is the outcome of a loop that is still going when the observation ends,
  \<open>Exited\<close> the one of \<open>exit()\<close>, and \<open>Raised e\<close> the one of an exception that nothing
  catches. The \<open>while 1\<close> loop is observed for \<open>fuel\<close> iterations. The \<open>try\<close> block
  catches \<open>KeyboardInterrupt\<close> and nothing else.
\<close>

datatype outcome = Running | Exited | Raised error

definition on_exception :: "error \<Rightarrow> world \<Rightarrow> outcome \<times> world" where
  "on_exception e w =
     (if e = KeyboardInterrupt then (Exited, info Interrupted w) else (Raised e, w))"

fun schedule_loop ::
  "nat \<Rightarrow> (world \<Rightarrow> (error + unit) \<times> world) \<Rightarrow> real \<Rightarrow> real \<Rightarrow> real \<Rightarrow> world \<Rightarrow> outcome \<times> world"
where
  "schedule_loop 0 func time_delta time_sleep time_next w = (Running, w)"
| "schedule_loop (Suc fuel) func time_delta time_sleep time_next w =
     (if clock w > time_next then
        (case func w of
           (Inl e, w1) \<Rightarrow> on_exception e w1
         | (Inr u, w1) \<Rightarrow>
             (let time_next' = clock w1 + time_delta;
                  w2 = info (NextRun time_next') w1
              in case sleep time_sleep w2 of
                   (Inl e, w3) \<Rightarrow> on_exception e w3
                 | (Inr u', w3) \<Rightarrow> schedule_loop fuel func time_delta time_sleep time_next' w3))
      else
        (case sleep time_sleep w of
           (Inl e, w3) \<Rightarrow> on_exception e w3
         | (Inr u', w3) \<Rightarrow> schedule_loop fuel func time_delta time_sleep time_next w3))"

text \<open>The first call of \<open>func\<close>, under \<open>start_now\<close>, is outside the \<open>try\<close> block.\<close>

definition schedule_run ::
  "(world \<Rightarrow> (error + unit) \<times> world) \<Rightarrow> bool \<Rightarrow> real \<Rightarrow> nat \<Rightarrow> world \<Rightarrow> outcome \<times> world" where
  "schedule_run func start_now interval_hour fuel w =
     (case (if start_now then func w else (Inr (), w)) of
        (Inl e, w1) \<Rightarrow> (Raised e, w1)
      | (Inr u, w1) \<Rightarrow>
          (let time_delta = interval_hour * 3600;
               time_next = clock w1 + time_delta;
               time_sleep = interval_hour * 60 * 60 / 10;
               w2 = info (NextRun time_next) w1
           in schedule_loop fuel func time_delta time_sleep time_next w2))"

subsection \<open>The sample configuration: \<open>generate_sample_config\<close> (lines 20 to 34)\<close>

text \<open>
  The dictionary assigned to the section holds Python values; \<open>configparser\<close> stores
  \<open>str\<close> of each. The file is modelled by its sections, keys and values, in order.
\<close>

datatype pyval = PStr string | PBool bool | PInt int

function str_nat :: "nat \<Rightarrow> string" where
  "str_nat n = (if n < 10 then [''0123456789'' ! n] else str_nat (n div 10) @ [''0123456789'' ! (n mod 10)])"
  by pat_completeness auto
termination
  by (relation "measure id") auto

declare str_nat.simps [simp del]

fun py_str :: "pyval \<Rightarrow> string" where
  "py_str (PStr s) = s"
| "py_str (PBool b) = (if b then ''True'' else ''False'')"
| "py_str (PInt i) = (if i < 0 then ''-'' @ str_nat (nat (- i)) else str_nat (nat i))"

definition sample_default :: "(string \<times> pyval) list" where
  "sample_default =
     [(''optics'', PStr ''ITMX''),
      (''control_negated'', PBool False),
      (''threshold_lower'', PInt 8192),
      (''threshold_upper'', PInt (- 8192)),
      (''start_now'', PBool False),
      (''interval_hour'', PStr ''12''),
      (''n_grid'', PStr ''64'')]"

definition sample_path :: string where
  "sample_path = ''brs_control_sample.ini''"

definition generate_sample_config :: "world \<Rightarrow> world" where
  "generate_sample_config w =
     (let config = [(''Default'', map (\<lambda>(k, v). (k, py_str v)) sample_default)];
          w1 = info (Generating sample_path) w
      in w1\<lparr>files := (files w1)(sample_path \<mapsto> config)\<rparr>)"

subsection \<open>The main program (lines 209 to 238)\<close>

text \<open>
  \<open>opts\<close> is what \<open>argparse\<close> returns: \<open>config\<close> is \<open>None\<close> when the option is absent.
  \<open>read_brs_config\<close> goes through \<open>configparser\<close>; what it returns for a path is a
  parameter of \<open>main\<close>. \<open>os.path.splitext\<close> raises \<open>TypeError\<close> on \<open>None\<close>; on a
  string it cuts the extension of the last path component, leading dots apart.
\<close>

record options =
  config :: "string option"
  get_config :: bool

record brs_config =
  optics :: string
  control_negated :: bool
  threshold_lower :: int
  threshold_upper :: int
  start_now :: bool
  interval_hour :: real
  n_grid :: int

definition splitext_root :: "string \<Rightarrow> string" where
  "splitext_root p =
     (let tail = rev (takeWhile (\<lambda>c. c \<noteq> CHR ''/'') (rev p));
          head = rev (dropWhile (\<lambda>c. c \<noteq> CHR ''/'') (rev p));
          dots = takeWhile (\<lambda>c. c = CHR ''.'') tail;
          name = dropWhile (\<lambda>c. c = CHR ''.'') tail
      in if CHR ''.'' \<in> set name
         then head @ dots @ rev (tl (dropWhile (\<lambda>c. c \<noteq> CHR ''.'') (rev name)))
         else p)"

definition os_path_splitext :: "string option \<Rightarrow> error + string" where
  "os_path_splitext p = (case p of None \<Rightarrow> Inl TypeError | Some s \<Rightarrow> Inr (splitext_root s))"

definition main ::
  "(string \<Rightarrow> world \<Rightarrow> error + brs_config) \<Rightarrow> options \<Rightarrow> nat \<Rightarrow> world \<Rightarrow> outcome \<times> world" where
  "main read_brs_config opts fuel w =
     (if get_config opts then (Exited, generate_sample_config w)
      else
        case (case config opts of
                None \<Rightarrow> Inr None
              | Some config_path \<Rightarrow>
                  (case read_brs_config config_path w of
                     Inl e \<Rightarrow> Inl e
                   | Inr cfg \<Rightarrow> Inr (Some cfg))) of
          Inl e \<Rightarrow> (Raised e, w)
        | Inr bound \<Rightarrow>
        (case os_path_splitext (config opts) of
          Inl e \<Rightarrow> (Raised e, w)
        | Inr filename \<Rightarrow>
        (case bound of
          None \<Rightarrow> (Raised NameError, w\<lparr>handlers := handlers w @ [filename @ ''.log'']\<rparr>)
        | Some cfg \<Rightarrow>
            schedule_run
              (brs_control (optics cfg) (control_negated cfg) (threshold_lower cfg)
                 (threshold_upper cfg) (n_grid cfg))
              (start_now cfg) (interval_hour cfg) fuel
              (info (Parsing (config opts))
                 (w\<lparr>handlers := handlers w @ [filename @ ''.log'']\<rparr>)))))"

text \<open>The writes among a list of channel accesses, in order.\<close>

definition writes_of :: "access list \<Rightarrow> (string \<times> real) list" where
  "writes_of xs = concat (map (\<lambda>a. case a of Read c \<Rightarrow> [] | Write c v \<Rightarrow> [(c, v)]) xs)"

subsection \<open>A world to run the program in\<close>

text \<open>
  The drift channel of the optics \<open>ITMX\<close> holds \<open>drift\<close>, every other channel
  \<open>control\<close>; nothing has happened yet, and \<open>f\<close> says which accesses fail.
\<close>

definition initial_world :: "real \<Rightarrow> real \<Rightarrow> (nat \<Rightarrow> bool) \<Rightarrow> world" where
  "initial_world drift control f =
     \<lparr>chan = (\<lambda>c. if c = channel_drift ''ITMX'' then drift else control),
      faulty = f, trace = [], log = [], clock = 0, sigint = None,
      files = (\<lambda>p. None), handlers = []\<rparr>"

section \<open>Properties of the decision core\<close>

subsection \<open>The closest index\<close>

lemma argmin_scan_bound:
  "best < i \<Longrightarrow> argmin_scan xs i best m < i + length xs"
proof (induction xs arbitrary: i best m)
  case Nil
  then show ?case by simp
next
  case (Cons a xs)
  have new: "argmin_scan xs (Suc i) i a < Suc i + length xs"
    by (rule Cons.IH) simp
  have old: "argmin_scan xs (Suc i) best m < Suc i + length xs"
    by (rule Cons.IH) (use Cons.prems in simp)
  from new old show ?case by simp
qed

lemma np_argmin_Inr:
  "xs \<noteq> [] \<Longrightarrow> \<exists>i. np_argmin xs = Inr i \<and> i < length xs"
proof (cases xs)
  case Nil
  then show "xs \<noteq> [] \<Longrightarrow> ?thesis" by simp
next
  case (Cons x rest)
  have "argmin_scan rest 1 0 x < 1 + length rest"
    by (rule argmin_scan_bound) simp
  with Cons show ?thesis by (simp add: np_argmin_def)
qed

lemma walk_up_bound: "i < length grid \<Longrightarrow> walk_up grid control i < length grid"
proof (induction grid control i rule: walk_up.induct)
  case (1 grid control i)
  show ?case
  proof (cases "i < length grid - 1 \<and> grid ! i \<le> control")
    case True
    then have "Suc i < length grid" by arith
    with True "1.IH" have "walk_up grid control (Suc i) < length grid" by blast
    with True show ?thesis by (subst walk_up.simps) simp
  next
    case False
    then have "walk_up grid control i = i"
      by (subst walk_up.simps) (simp only: if_False)
    with "1.prems" show ?thesis by simp
  qed
qed

lemma walk_down_bound: "i < length grid \<Longrightarrow> walk_down grid control i < length grid"
proof (induction grid control i rule: walk_down.induct)
  case (1 grid control i)
  show ?case
  proof (cases "0 < i \<and> grid ! i \<ge> control")
    case True
    then have "i - 1 < length grid" using "1.prems" by arith
    with True "1.IH" have "walk_down grid control (i - 1) < length grid" by blast
    with True show ?thesis by (subst walk_down.simps) simp
  next
    case False
    then have "walk_down grid control i = i"
      by (subst walk_down.simps) (simp only: if_False)
    with "1.prems" show ?thesis by simp
  qed
qed

lemma control_next_in_grid:
  assumes "grid \<noteq> []" and "dir \<noteq> Hold"
  shows "\<exists>r. control_next grid v dir = Inr r \<and> r \<in> set grid"
proof -
  from assms(1) have "map (\<lambda>g. \<bar>g - v\<bar>) grid \<noteq> []" by simp
  from np_argmin_Inr [OF this] obtain i
    where i: "np_argmin (map (\<lambda>g. \<bar>g - v\<bar>) grid) = Inr i" "i < length grid"
    by auto
  from assms(2) obtain b where b: "dir = Some b" by (cases dir) auto
  show ?thesis
  proof (cases b)
    case True
    with i b walk_up_bound [OF i(2), of v] show ?thesis
      by (simp add: control_next_def)
  next
    case False
    with i b walk_down_bound [OF i(2), of v] show ?thesis
      by (simp add: control_next_def)
  qed
qed

subsection \<open>Threshold decision\<close>

text \<open>
  C1, as the code has it. The threshold decision of \<open>brs_control\<close>: a measurement
  above the upper threshold gives Increase when the polarity flag \<open>control_negated\<close> is
  set and Decrease when it is not; otherwise a measurement below the lower threshold
  gives Decrease when the flag is set and Increase when it is not; otherwise the
  direction is Hold. The comparisons are strict: a measurement equal to the upper
  threshold is held unless it is below the lower one, and a measurement equal to the
  lower threshold is held unless it is above the upper one. So when the lower threshold
  is at most the upper one, a measurement equal to either of them is held. With lower
  threshold -8192, upper threshold 8192, the flag unset and the measurement 9000 the
  direction is Decrease.
\<close>

theorem threshold_decision:
  "(of_int upper < m \<longrightarrow>
      increase_temperature m lower upper neg = (if neg then Increase else Decrease))
   \<and> (\<not> of_int upper < m \<and> m < of_int lower \<longrightarrow>
      increase_temperature m lower upper neg = (if neg then Decrease else Increase))
   \<and> (\<not> of_int upper < m \<and> \<not> m < of_int lower \<longrightarrow>
      increase_temperature m lower upper neg = Hold)
   \<and> (m = of_int upper \<longrightarrow>
      increase_temperature m lower upper neg =
        (if upper < lower then (if neg then Decrease else Increase) else Hold))
   \<and> (m = of_int lower \<longrightarrow>
      increase_temperature m lower upper neg =
        (if upper < lower then (if neg then Increase else Decrease) else Hold))
   \<and> (lower \<le> upper \<and> (m = of_int upper \<or> m = of_int lower) \<longrightarrow>
      increase_temperature m lower upper neg = Hold)
   \<and> increase_temperature 9000 (- 8192) 8192 False = Decrease"
  by (simp add: increase_temperature_def)

theorem threshold_decision_witness:
  "increase_temperature 9000 (- 8192) 8192 True = Increase
   \<and> increase_temperature (- 9000) (- 8192) 8192 True = Decrease
   \<and> increase_temperature (- 9000) (- 8192) 8192 False = Increase
   \<and> increase_temperature 100 (- 8192) 8192 True = Hold
   \<and> (- 8192 :: int) \<le> 8192
   \<and> increase_temperature 8192 (- 8192) 8192 False = Hold
   \<and> increase_temperature (- 8192) (- 8192) 8192 False = Hold"
  using threshold_decision [of 8192 9000 "- 8192" True]
    threshold_decision [of 8192 "- 9000" "- 8192" True]
    threshold_decision [of 8192 "- 9000" "- 8192" False]
    threshold_decision [of 8192 100 "- 8192" True]
    threshold_decision [of 8192 8192 "- 8192" False]
    threshold_decision [of 8192 "- 8192" "- 8192" False]
  by simp

text \<open>
  C1, as stated, fails at a boundary when the thresholds are misordered, as they are in
  the sample configuration (lower threshold 8192, upper threshold -8192): the
  measurement -8192 equals the upper threshold and the direction is Increase, and the
  measurement 8192 equals the lower threshold and the direction is Decrease, with the
  flag unset; neither is held.
\<close>

theorem threshold_boundary_not_held:
  "(- 8192 :: real) = of_int (- 8192)
   \<and> increase_temperature (- 8192) 8192 (- 8192) False = Increase
   \<and> increase_temperature (- 8192) 8192 (- 8192) False \<noteq> Hold
   \<and> (8192 :: real) = of_int 8192
   \<and> increase_temperature 8192 8192 (- 8192) False = Decrease
   \<and> increase_temperature 8192 8192 (- 8192) False \<noteq> Hold"
  by (simp add: increase_temperature_def)

subsection \<open>Holding\<close>

text \<open>
  C3. With direction Hold the next value is exactly the current value, whatever the
  grid holds (no snapping onto the grid), so holding again gives the same value.
  The grid is a control grid of the data model, which has at least one entry: the
  closest index is computed before the direction is looked at, and on an empty grid
  that computation raises.
\<close>

theorem hold_keeps_value:
  assumes "grid \<noteq> []"
  shows "control_next grid v Hold = Inr v
    \<and> (case control_next grid v Hold of Inl e \<Rightarrow> Inl e | Inr w \<Rightarrow> control_next grid w Hold) = Inr v"
proof -
  have "control_next grid w Hold = Inr w" for w
  proof -
    from np_argmin_Inr [of "map (\<lambda>g. \<bar>g - w\<bar>) grid"] assms
    obtain i where "np_argmin (map (\<lambda>g. \<bar>g - w\<bar>) grid) = Inr i" by auto
    then show ?thesis by (simp add: control_next_def)
  qed
  then show ?thesis by simp
qed

theorem hold_keeps_value_witness:
  "[0, 577 / 100, 816 / 100, 10] \<noteq> ([] :: real list)
   \<and> control_next [0, 577 / 100, 816 / 100, 10] 6 Hold = Inr 6"
  using hold_keeps_value [of "[0, 577 / 100, 816 / 100, 10]" 6]
  by simp

subsection \<open>Increase followed by Decrease\<close>

text \<open>
  C4. For a value \<open>v\<close> that is not a grid point, the step with direction Increase
  followed by the step with direction Decrease on its result never gives \<open>v\<close> back:
  both steps return grid points. So the round trip can come back to \<open>v\<close> only when
  \<open>v\<close> is a grid point. This holds for every non-empty grid; the strictly
  increasing ones are among them.
\<close>

theorem increase_decrease_no_return:
  assumes "sorted_wrt (<) grid" and "grid \<noteq> []"
  shows "\<exists>w r. control_next grid v Increase = Inr w \<and> control_next grid w Decrease = Inr r
           \<and> (v \<notin> set grid \<longrightarrow> r \<noteq> v) \<and> (r = v \<longrightarrow> v \<in> set grid)"
proof -
  from control_next_in_grid [OF assms(2), of Increase v]
  obtain w where w: "control_next grid v Increase = Inr w" by auto
  from control_next_in_grid [OF assms(2), of Decrease w]
  obtain r where r: "control_next grid w Decrease = Inr r" "r \<in> set grid" by auto
  from w r show ?thesis by auto
qed

theorem increase_decrease_no_return_witness:
  "sorted_wrt (<) [0, 577 / 100, 816 / 100, 10 :: real]
   \<and> [0, 577 / 100, 816 / 100, 10] \<noteq> ([] :: real list)
   \<and> (6::real) \<notin> set [0, 577 / 100, 816 / 100, 10]
   \<and> (\<exists>w r. control_next [0, 577 / 100, 816 / 100, 10] 6 Increase = Inr w
         \<and> control_next [0, 577 / 100, 816 / 100, 10] w Decrease = Inr r \<and> r \<noteq> 6)"
  using increase_decrease_no_return [of "[0, 577 / 100, 816 / 100, 10]" 6]
  by simp

subsection \<open>Steps with a direction\<close>

text \<open>
  The closest index minimises the distance to the current value; the upward walk stops
  at the first entry above the value or at the last index, the downward walk at the
  first entry below it or at index 0.
\<close>

lemma argmin_scan_min:
  assumes "ys = pre @ xs" and "length pre = i" and "best < i" and "ys ! best = m"
    and "\<forall>j<i. m \<le> ys ! j"
  shows "argmin_scan xs i best m < length ys
    \<and> (\<forall>j<length ys. ys ! argmin_scan xs i best m \<le> ys ! j)"
  using assms
proof (induction xs arbitrary: pre i best m)
  case Nil
  then show ?case by simp
next
  case (Cons x xs)
  have split: "ys = (pre @ [x]) @ xs" and len: "length (pre @ [x]) = Suc i"
    using Cons.prems by simp_all
  have at_i: "ys ! i = x" using Cons.prems by (simp add: nth_append)
  show ?case
  proof (cases "x < m")
    case True
    have "\<forall>j<Suc i. x \<le> ys ! j"
      using True Cons.prems(5) at_i by (auto simp: less_Suc_eq)
    from Cons.IH [OF split len _ at_i this] True show ?thesis by simp
  next
    case False
    have "\<forall>j<Suc i. m \<le> ys ! j"
      using False Cons.prems(5) at_i by (auto simp: less_Suc_eq)
    from Cons.IH [OF split len _ Cons.prems(4) this] Cons.prems(3) False
    show ?thesis by simp
  qed
qed

lemma np_argmin_min:
  assumes "xs \<noteq> []"
  shows "\<exists>i. np_argmin xs = Inr i \<and> i < length xs \<and> (\<forall>j<length xs. xs ! i \<le> xs ! j)"
proof -
  from assms obtain x rest where xs: "xs = x # rest" by (cases xs) auto
  have "argmin_scan rest 1 0 x < length xs
    \<and> (\<forall>j<length xs. xs ! argmin_scan rest 1 0 x \<le> xs ! j)"
    by (rule argmin_scan_min [where pre = "[x]"]) (simp_all add: xs)
  then show ?thesis by (simp add: np_argmin_def xs)
qed

lemma walk_up_stop:
  assumes "i < length grid" and "\<forall>j<i. grid ! j \<le> v"
  shows "walk_up grid v i < length grid
    \<and> (\<forall>j<walk_up grid v i. grid ! j \<le> v)
    \<and> (v < grid ! walk_up grid v i \<or> walk_up grid v i = length grid - 1)"
  using assms
proof (induction grid v i rule: walk_up.induct)
  case (1 grid v i)
  show ?case
  proof (cases "i < length grid - 1 \<and> grid ! i \<le> v")
    case True
    then have step: "walk_up grid v i = walk_up grid v (Suc i)"
      by (subst walk_up.simps) simp
    have "Suc i < length grid" using True by arith
    moreover have "\<forall>j<Suc i. grid ! j \<le> v"
      using True "1.prems"(2) by (auto simp: less_Suc_eq)
    ultimately show ?thesis using "1.IH" True step by presburger
  next
    case False
    then have stop: "walk_up grid v i = i"
      by (subst walk_up.simps) (simp only: if_False)
    from False "1.prems" show ?thesis unfolding stop by auto
  qed
qed

lemma walk_down_stop:
  assumes "i < length grid" and "\<forall>j<length grid. i < j \<longrightarrow> v \<le> grid ! j"
  shows "walk_down grid v i < length grid
    \<and> (\<forall>j<length grid. walk_down grid v i < j \<longrightarrow> v \<le> grid ! j)
    \<and> (grid ! walk_down grid v i < v \<or> walk_down grid v i = 0)"
  using assms
proof (induction grid v i rule: walk_down.induct)
  case (1 grid v i)
  show ?case
  proof (cases "0 < i \<and> v \<le> grid ! i")
    case True
    then have step: "walk_down grid v i = walk_down grid v (i - 1)"
      by (subst walk_down.simps) simp
    have "i - 1 < length grid" using "1.prems"(1) by arith
    moreover have "\<forall>j<length grid. i - 1 < j \<longrightarrow> v \<le> grid ! j"
    proof (intro allI impI)
      fix j assume "j < length grid" "i - 1 < j"
      then have "j = i \<or> i < j" using True by arith
      then show "v \<le> grid ! j" using True "1.prems"(2) \<open>j < length grid\<close> by auto
    qed
    ultimately show ?thesis using "1.IH" True step by presburger
  next
    case False
    then have stop: "walk_down grid v i = i"
      by (subst walk_down.simps) (simp only: if_False)
    from False "1.prems" show ?thesis unfolding stop by auto
  qed
qed

lemma strict_grid_Max:
  assumes "sorted_wrt (<) grid" and "grid \<noteq> []"
  shows "Max (set grid) = grid ! (length grid - 1)"
proof (rule Max_eqI)
  show "finite (set grid)" by simp
  show "grid ! (length grid - 1) \<in> set grid" using assms(2) by simp
  fix y assume "y \<in> set grid"
  then obtain j where j: "j < length grid" "grid ! j = y" by (auto simp: in_set_conv_nth)
  then have "j = length grid - 1 \<or> j < length grid - 1" by arith
  then show "y \<le> grid ! (length grid - 1)"
    using assms j sorted_wrt_nth_less [of "(<)" grid j "length grid - 1"] by auto
qed

lemma strict_grid_Min:
  assumes "sorted_wrt (<) grid" and "grid \<noteq> []"
  shows "Min (set grid) = grid ! 0"
proof (rule Min_eqI)
  show "finite (set grid)" by simp
  show "grid ! 0 \<in> set grid" using assms(2) by simp
  fix y assume "y \<in> set grid"
  then obtain j where j: "j < length grid" "grid ! j = y" by (auto simp: in_set_conv_nth)
  then have "j = 0 \<or> 0 < j" by arith
  then show "grid ! 0 \<le> y"
    using assms j sorted_wrt_nth_less [of "(<)" grid 0 j] by auto
qed


lemma increase_step:
  assumes sorted: "sorted_wrt (<) grid" and ne: "grid \<noteq> []"
  shows "\<exists>r. control_next grid v Increase = Inr r \<and> r \<in> set grid
    \<and> (if Max (set grid) \<le> v then r = Max (set grid)
       else v < r \<and> (\<forall>g\<in>set grid. v < g \<longrightarrow> r \<le> g))"
proof -
  let ?d = "map (\<lambda>g. \<bar>g - v\<bar>) grid"
  from ne have "?d \<noteq> []" by simp
  from np_argmin_min [OF this] obtain i0
    where i0: "np_argmin ?d = Inr i0" "i0 < length grid"
      and closest: "\<forall>j<length grid. \<bar>grid ! i0 - v\<bar> \<le> \<bar>grid ! j - v\<bar>"
    by auto
  let ?k = "walk_up grid v i0"
  have res: "control_next grid v Increase = Inr (grid ! ?k)"
    using i0 by (simp add: control_next_def)
  have mx: "Max (set grid) = grid ! (length grid - 1)"
    by (rule strict_grid_Max [OF sorted ne])
  have mono: "grid ! a < grid ! b" if "a < b" "b < length grid" for a b
    using sorted_wrt_nth_less [OF sorted that] .
  show ?thesis
  proof (cases "grid ! i0 \<le> v")
    case True
    have below: "\<forall>j<i0. grid ! j \<le> v"
      using True mono i0(2) by (meson less_imp_le order_trans)
    from walk_up_stop [OF i0(2) below]
    have k: "?k < length grid" "\<forall>j<?k. grid ! j \<le> v"
      "v < grid ! ?k \<or> ?k = length grid - 1" by auto
    show ?thesis
    proof (cases "v < grid ! ?k")
      case True
      have "grid ! ?k \<le> g" if "g \<in> set grid" "v < g" for g
      proof -
        from that obtain j where j: "j < length grid" "grid ! j = g"
          by (auto simp: in_set_conv_nth)
        with that k(2) have "\<not> j < ?k" by auto
        then have "j = ?k \<or> ?k < j" by arith
        with mono [of "?k" j] j show ?thesis by auto
      qed
      moreover have "\<not> Max (set grid) \<le> v"
      proof -
        have "grid ! ?k \<le> Max (set grid)" using k(1) by simp
        with True show ?thesis by linarith
      qed
      ultimately show ?thesis using res True k(1) by auto
    next
      case False
      with k(3) have last: "?k = length grid - 1" by simp
      with False mx res k(1) show ?thesis by auto
    qed
  next
    case False
    then have stop: "?k = i0"
      by (subst walk_up.simps) simp
    have "grid ! i0 \<le> g" if "g \<in> set grid" "v < g" for g
    proof -
      from that obtain j where j: "j < length grid" "grid ! j = g"
        by (auto simp: in_set_conv_nth)
      with closest have "\<bar>grid ! i0 - v\<bar> \<le> \<bar>g - v\<bar>" by auto
      with False that show ?thesis by simp
    qed
    moreover have "\<not> Max (set grid) \<le> v"
    proof -
      have "grid ! i0 \<le> Max (set grid)" using i0(2) by simp
      with False show ?thesis by linarith
    qed
    ultimately show ?thesis using res False i0(2) stop by auto
  qed
qed

lemma decrease_step:
  assumes sorted: "sorted_wrt (<) grid" and ne: "grid \<noteq> []"
  shows "\<exists>r. control_next grid v Decrease = Inr r \<and> r \<in> set grid
    \<and> (if v \<le> Min (set grid) then r = Min (set grid)
       else r < v \<and> (\<forall>g\<in>set grid. g < v \<longrightarrow> g \<le> r))"
proof -
  let ?d = "map (\<lambda>g. \<bar>g - v\<bar>) grid"
  from ne have "?d \<noteq> []" by simp
  from np_argmin_min [OF this] obtain i0
    where i0: "np_argmin ?d = Inr i0" "i0 < length grid"
      and closest: "\<forall>j<length grid. \<bar>grid ! i0 - v\<bar> \<le> \<bar>grid ! j - v\<bar>"
    by auto
  let ?k = "walk_down grid v i0"
  have res: "control_next grid v Decrease = Inr (grid ! ?k)"
    using i0 by (simp add: control_next_def)
  have mn: "Min (set grid) = grid ! 0"
    by (rule strict_grid_Min [OF sorted ne])
  have mono: "grid ! a < grid ! b" if "a < b" "b < length grid" for a b
    using sorted_wrt_nth_less [OF sorted that] .
  show ?thesis
  proof (cases "v \<le> grid ! i0")
    case True
    have above: "\<forall>j<length grid. i0 < j \<longrightarrow> v \<le> grid ! j"
      using True mono by (meson less_imp_le order_trans)
    from walk_down_stop [OF i0(2) above]
    have k: "?k < length grid" "\<forall>j<length grid. ?k < j \<longrightarrow> v \<le> grid ! j"
      "grid ! ?k < v \<or> ?k = 0" by auto
    show ?thesis
    proof (cases "grid ! ?k < v")
      case True
      have "g \<le> grid ! ?k" if "g \<in> set grid" "g < v" for g
      proof -
        from that obtain j where j: "j < length grid" "grid ! j = g"
          by (auto simp: in_set_conv_nth)
        with that k(2) have "\<not> ?k < j" by auto
        then have "j = ?k \<or> j < ?k" by arith
        with mono [of j "?k"] j k(1) show ?thesis by auto
      qed
      moreover have "\<not> v \<le> Min (set grid)"
      proof -
        have "Min (set grid) \<le> grid ! ?k" using k(1) by simp
        with True show ?thesis by linarith
      qed
      ultimately show ?thesis using res True k(1) by auto
    next
      case False
      with k(3) have first: "?k = 0" by simp
      with False mn res k(1) show ?thesis by auto
    qed
  next
    case False
    then have stop: "?k = i0"
      by (subst walk_down.simps) simp
    have "g \<le> grid ! i0" if "g \<in> set grid" "g < v" for g
    proof -
      from that obtain j where j: "j < length grid" "grid ! j = g"
        by (auto simp: in_set_conv_nth)
      with closest have "\<bar>grid ! i0 - v\<bar> \<le> \<bar>g - v\<bar>" by auto
      with False that show ?thesis by simp
    qed
    moreover have "\<not> v \<le> Min (set grid)"
    proof -
      have "Min (set grid) \<le> grid ! i0" using i0(2) by simp
      with False show ?thesis by linarith
    qed
    ultimately show ?thesis using res False i0(2) stop by auto
  qed
qed

text \<open>
  C2. On a strictly increasing grid the step with direction Increase returns the
  smallest grid entry strictly greater than the current value \<open>v\<close>, hence a value
  strictly greater than \<open>v\<close>, unless \<open>v\<close> is at or above the largest entry, in which
  case it returns the largest entry. The step with direction Decrease returns the largest
  entry strictly less than \<open>v\<close>, unless \<open>v\<close> is at or below the smallest entry, in which
  case it returns the smallest entry.
\<close>

theorem directional_step:
  assumes "sorted_wrt (<) grid" and "grid \<noteq> []"
  shows "(\<exists>r. control_next grid v Increase = Inr r \<and> r \<in> set grid
      \<and> (if Max (set grid) \<le> v then r = Max (set grid)
         else v < r \<and> (\<forall>g\<in>set grid. v < g \<longrightarrow> r \<le> g)))
    \<and> (\<exists>r. control_next grid v Decrease = Inr r \<and> r \<in> set grid
      \<and> (if v \<le> Min (set grid) then r = Min (set grid)
         else r < v \<and> (\<forall>g\<in>set grid. g < v \<longrightarrow> g \<le> r)))"
  by (intro conjI increase_step decrease_step assms)

theorem directional_step_witness:
  "sorted_wrt (<) [0, 577 / 100, 816 / 100, 10 :: real]
   \<and> [0, 577 / 100, 816 / 100, 10] \<noteq> ([] :: real list)
   \<and> (\<exists>r. control_next [0, 577 / 100, 816 / 100, 10] 6 Increase = Inr r \<and> 6 < r
         \<and> (\<forall>g\<in>set [0, 577 / 100, 816 / 100, 10]. 6 < g \<longrightarrow> r \<le> g))
   \<and> (\<exists>r. control_next [0, 577 / 100, 816 / 100, 10] 6 Decrease = Inr r \<and> r < 6
         \<and> (\<forall>g\<in>set [0, 577 / 100, 816 / 100, 10]. g < 6 \<longrightarrow> g \<le> r))
   \<and> (\<exists>r. control_next [0, 577 / 100, 816 / 100, 10] 11 Increase = Inr r \<and> r = 10)
   \<and> (\<exists>r. control_next [0, 577 / 100, 816 / 100, 10] (- 1) Decrease = Inr r \<and> r = 0)"
  using directional_step [of "[0, 577 / 100, 816 / 100, 10]" 6]
    directional_step [of "[0, 577 / 100, 816 / 100, 10]" 11]
    directional_step [of "[0, 577 / 100, 816 / 100, 10]" "- 1"]
  by auto

subsection \<open>The grid of four points\<close>

lemma rint_bounds: "x - 1 / 2 \<le> of_int (rint x) \<and> of_int (rint x) \<le> x + 1 / 2"
  unfolding rint_def Let_def by (auto; linarith)

lemma rint_eqI: "of_int k - 1 / 2 < x \<Longrightarrow> x < of_int k + 1 / 2 \<Longrightarrow> rint x = k"
  using rint_bounds [of x] by linarith

lemma np_round2_sqrt_eqI:
  assumes "0 \<le> k" and "((2 * of_int k - 1) / 200)\<^sup>2 < x"
    and "x < ((2 * of_int k + 1) / 200)\<^sup>2"
  shows "np_round2 (sqrt x) = of_int k / 100"
proof -
  have lo: "(2 * of_int k - 1) / 200 < sqrt x"
    by (rule real_less_rsqrt) (rule assms(2))
  have hi: "sqrt x < (2 * of_int k + 1) / 200"
    by (rule real_less_lsqrt) (use assms in auto)
  have "rint (sqrt x * 100) = k"
    by (rule rint_eqI) (use lo hi in auto)
  then show ?thesis by (simp add: np_round2_def)
qed

lemma np_round2_0: "np_round2 0 = 0"
  by (simp add: np_round2_def rint_def)

lemma np_round2_10: "np_round2 10 = 10"
  by (simp add: np_round2_def rint_def)

lemma upt_4: "[0 ..< 4] = [0, 1, 2, 3::nat]"
  by code_simp

lemma control_grid_4: "control_grid 4 = Inr [0, 577 / 100, 816 / 100, 10]"
proof -
  have b: "np_round2 (sqrt (100 / 3)) = 577 / 100"
    using np_round2_sqrt_eqI [of 577 "100 / 3"] by (simp add: power2_eq_square)
  have c: "np_round2 (sqrt (200 / 3)) = 816 / 100"
    using np_round2_sqrt_eqI [of 816 "200 / 3"] by (simp add: power2_eq_square)
  show ?thesis
    by (simp add: control_grid_def np_linspace_0_100_def upt_4 np_round2_0 np_round2_10 b c)
qed

text \<open>
  C6. With \<open>n_grid = 4\<close> the grid is \<open>[0.0, 5.77, 8.16, 10.0]\<close>; from the current value
  6.0 the step with direction Increase gives 8.16 and the step with direction Decrease
  gives 5.77.
\<close>

theorem grid_of_four:
  "control_grid 4 = Inr [0, 577 / 100, 816 / 100, 10]
   \<and> control_next [0, 577 / 100, 816 / 100, 10] 6 Increase = Inr (816 / 100)
   \<and> control_next [0, 577 / 100, 816 / 100, 10] 6 Decrease = Inr (577 / 100)"
proof (intro conjI)
  show "control_grid 4 = Inr [0, 577 / 100, 816 / 100, 10]"
    by (rule control_grid_4)
  show "control_next [0, 577 / 100, 816 / 100, 10] 6 Increase = Inr (816 / 100)"
    by (simp add: control_next_def np_argmin_def walk_up.simps)
  show "control_next [0, 577 / 100, 816 / 100, 10] 6 Decrease = Inr (577 / 100)"
    by (simp add: control_next_def np_argmin_def walk_down.simps)
qed

subsection \<open>Order of the grid\<close>

text \<open>
  Rounding keeps the order of its arguments, and keeps two arguments apart when they
  differ by more than one unit of the last decimal place. In a grid of at most 517
  entries the square roots of neighbouring points differ by more than 0.01, except for
  at most 40 pairs at the top of the grids of 502 to 517 entries, which are checked
  one by one.
\<close>

lemma rint_mono: "x \<le> y \<Longrightarrow> rint x \<le> rint y"
proof (rule ccontr)
  assume xy: "x \<le> y" and "\<not> rint x \<le> rint y"
  then have "rint y + 1 \<le> rint x" by simp
  then have gap: "real_of_int (rint y) + 1 \<le> of_int (rint x)" by linarith
  with rint_bounds [of x] rint_bounds [of y] xy have "x = y" by linarith
  with \<open>\<not> rint x \<le> rint y\<close> show False by simp
qed

lemma rint_strict: "x + 1 < y \<Longrightarrow> rint x < rint y"
proof -
  assume "x + 1 < y"
  with rint_bounds [of x] rint_bounds [of y]
  have "real_of_int (rint x) < of_int (rint y)" by linarith
  then show ?thesis by simp
qed

lemma np_round2_mono: "x \<le> y \<Longrightarrow> np_round2 x \<le> np_round2 y"
  using rint_mono [of "x * 100" "y * 100"] by (simp add: np_round2_def divide_right_mono)

lemma np_round2_strict: "x + 1 / 100 < y \<Longrightarrow> np_round2 x < np_round2 y"
  using rint_strict [of "x * 100" "y * 100"] by (simp add: np_round2_def divide_strict_right_mono algebra_simps)

lemma sorted_wrt_map_upt:
  assumes "\<And>i j. i < j \<Longrightarrow> j < n \<Longrightarrow> P (f i) (f j)"
  shows "sorted_wrt P (map f [0 ..< n])"
  using assms by (simp add: sorted_wrt_iff_nth_less)

lemma control_grid_Inr:
  "0 \<le> n \<Longrightarrow> control_grid n =
     Inr (map (\<lambda>i. np_round2 (sqrt (real i * (if n - 1 > 0 then 100 / real_of_int (n - 1) else 100))))
       [0 ..< nat n])"
  by (simp add: control_grid_def np_linspace_0_100_def comp_def)

lemma top_pairs_ok_cell:
  "top_pairs_ok c N i m \<Longrightarrow> i - int c < j \<Longrightarrow> j \<le> i \<Longrightarrow> \<exists>m'. cell_between N j m'"
proof (induction c arbitrary: i m)
  case 0
  then show ?case by simp
next
  case (Suc c)
  let ?m1 = "if m * m * N < 4000000 * (i + 1) then m else m - 2"
  from Suc.prems(1) have here: "cell_between N i ?m1"
    and rest: "top_pairs_ok c N (i - 1) (?m1 - 2)"
    by (simp_all add: Let_def)
  show ?case
  proof (cases "j = i")
    case True
    with here show ?thesis by blast
  next
    case False
    with Suc.prems have "i - 1 - int c < j" "j \<le> i - 1" by simp_all
    from Suc.IH [OF rest this] show ?thesis .
  qed
qed

lemma checked_grids:
  "\<forall>N \<in> set [501 .. 516]. top_pairs_ok 40 N (N - 1) 1999"
  by code_simp

lemma cell_between_strict:
  assumes "cell_between N i m" and "0 < N" and "0 \<le> i"
  shows "np_round2 (sqrt (real_of_int i * (100 / real_of_int N)))
       < np_round2 (sqrt ((real_of_int i + 1) * (100 / real_of_int N)))"
proof -
  let ?a = "real_of_int i * (100 / real_of_int N)"
  let ?b = "(real_of_int i + 1) * (100 / real_of_int N)"
  let ?h = "real_of_int m / 200"
  from assms(1) have m: "0 < m" "odd m" and lo: "4000000 * i < m * m * N"
    and hi: "m * m * N < 4000000 * (i + 1)"
    by (simp_all add: cell_between_def)
  have Npos: "0 < real_of_int N" using assms(2) by simp
  from lo have "real_of_int (4000000 * i) < real_of_int (m * m * N)" by linarith
  then have lo': "4000000 * real_of_int i < real_of_int m * real_of_int m * real_of_int N" by simp
  from hi have "real_of_int (m * m * N) < real_of_int (4000000 * (i + 1))" by linarith
  then have hi': "real_of_int m * real_of_int m * real_of_int N < 4000000 * (real_of_int i + 1)" by simp
  have a_lt: "?a < ?h\<^sup>2"
    using lo' Npos by (simp add: power2_eq_square field_simps)
  have b_gt: "?h\<^sup>2 < ?b"
    using hi' Npos by (simp add: power2_eq_square field_simps)
  have "sqrt ?a < ?h"
    by (rule real_less_lsqrt) (use m a_lt in simp_all)
  then have x: "sqrt ?a * 100 < real_of_int m / 2" by simp
  have "?h < sqrt ?b" by (rule real_less_rsqrt) (rule b_gt)
  then have y: "real_of_int m / 2 < sqrt ?b * 100" by simp
  from m(2) obtain k where k: "m = 2 * k + 1" by (auto elim: oddE)
  have "real_of_int (rint (sqrt ?a * 100)) < real_of_int k + 1"
    using rint_bounds [of "sqrt ?a * 100"] x k by simp
  then have "rint (sqrt ?a * 100) \<le> k" by linarith
  moreover have "real_of_int k < real_of_int (rint (sqrt ?b * 100))"
    using rint_bounds [of "sqrt ?b * 100"] y k by simp
  then have "k < rint (sqrt ?b * 100)" by linarith
  ultimately have "rint (sqrt ?a * 100) < rint (sqrt ?b * 100)" by linarith
  then show ?thesis by (simp add: np_round2_def divide_strict_right_mono)
qed


lemma sqrt_gap_far:
  fixes i N :: int
  assumes "0 < N" and "N \<le> 1000000" and "0 \<le> i"
    and far: "4000000 * i * N < (1000000 - N)\<^sup>2"
  shows "sqrt (real_of_int i * (100 / real_of_int N)) + 1 / 100
       < sqrt ((real_of_int i + 1) * (100 / real_of_int N))"
proof -
  define r where "r = real_of_int N"
  define x where "x = real_of_int i"
  define t where "t = (1000000 - r) / (200 * r)"
  have r: "0 < r" "r \<le> 1000000" using assms by (simp_all add: r_def)
  have x: "0 \<le> x" using assms by (simp add: x_def)
  have t: "0 \<le> t" using r by (simp add: t_def)
  from far have "real_of_int (4000000 * i * N) < real_of_int ((1000000 - N)\<^sup>2)"
    by linarith
  then have far': "4000000 * x * r < (1000000 - r)\<^sup>2"
    by (simp add: r_def x_def)
  define a where "a = x * (100 / r)"
  have a: "0 \<le> a" using x r by (simp add: a_def)
  have "a * (40000 * r * r) = 4000000 * x * r"
    using r by (simp add: a_def)
  also have "\<dots> < (1000000 - r)\<^sup>2" by (rule far')
  also have "\<dots> = t\<^sup>2 * (40000 * r * r)"
    using r by (simp add: t_def power2_eq_square field_simps)
  finally have lt: "a * (40000 * r * r) < t\<^sup>2 * (40000 * r * r)" .
  have "0 \<le> 40000 * r * r" using r by simp
  with lt have "a < t\<^sup>2" by (rule mult_right_less_imp_less)
  with t have s: "sqrt a < t" by (intro real_less_lsqrt)
  have "(sqrt a + 1 / 100)\<^sup>2 = a + sqrt a / 50 + 1 / 10000"
    using a by (simp add: power2_eq_square algebra_simps)
  also have "\<dots> < a + (t / 50 + 1 / 10000)" using s by simp
  also have "t / 50 + 1 / 10000 = 100 / r"
    using r by (simp add: t_def field_simps)
  also have "a + 100 / r = (x + 1) * (100 / r)"
    by (simp add: a_def distrib_right add_divide_distrib)
  finally have "sqrt a + 1 / 100 < sqrt ((x + 1) * (100 / r))"
    by (rule real_less_rsqrt)
  then show ?thesis by (simp add: a_def r_def x_def)
qed

lemma far_or_top:
  fixes i N :: int
  assumes "0 < N" and "N \<le> 516" and "0 \<le> i" and "i < N"
    and "\<not> 4000000 * i * N < (1000000 - N)\<^sup>2"
  shows "501 \<le> N \<and> N - 1 - 40 < i"
proof (rule ccontr)
  assume "\<not> (501 \<le> N \<and> N - 1 - 40 < i)"
  then have "N \<le> 500 \<or> i \<le> 475" using assms(2) by linarith
  define p where "p = i * N"
  have "i * N \<le> 249500"
  proof (use \<open>N \<le> 500 \<or> i \<le> 475\<close> in \<open>elim disjE\<close>)
    assume "N \<le> 500"
    with assms have "i * N \<le> 499 * 500" by (intro mult_mono) simp_all
    then show ?thesis by simp
  next
    assume "i \<le> 475"
    with assms have "i * N \<le> 475 * 516" by (intro mult_mono) simp_all
    then show ?thesis by simp
  qed
  then have "p \<le> 249500" by (simp add: p_def)
  moreover from assms(5) have "(1000000 - N)\<^sup>2 \<le> 4000000 * p"
    by (simp add: p_def mult.assoc)
  moreover have "(1000000 - 516)\<^sup>2 \<le> (1000000 - N)\<^sup>2"
    using assms(2) by (intro power_mono) simp_all
  then have "998968266256 \<le> (1000000 - N)\<^sup>2" by simp
  ultimately show False by linarith
qed

lemma neighbours_apart:
  fixes N :: int and i :: nat
  assumes "0 < N" and "N \<le> 516" and "int i < N"
  shows "np_round2 (sqrt (real i * (100 / real_of_int N)))
       < np_round2 (sqrt (real (Suc i) * (100 / real_of_int N)))"
proof (cases "4000000 * int i * N < (1000000 - N)\<^sup>2")
  case True
  have "sqrt (real_of_int (int i) * (100 / real_of_int N)) + 1 / 100
      < sqrt ((real_of_int (int i) + 1) * (100 / real_of_int N))"
    by (rule sqrt_gap_far) (use assms True in simp_all)
  then have "np_round2 (sqrt (real_of_int (int i) * (100 / real_of_int N)))
      < np_round2 (sqrt ((real_of_int (int i) + 1) * (100 / real_of_int N)))"
    by (rule np_round2_strict)
  then show ?thesis by (simp add: add.commute)
next
  case False
  from far_or_top [OF assms(1,2) _ assms(3) False]
  have top: "501 \<le> N" "N - 1 - 40 < int i" by simp_all
  with assms(2) have "N \<in> set [501 .. 516]" by (simp only: set_upto atLeastAtMost_iff)
  with checked_grids have "top_pairs_ok 40 N (N - 1) 1999" by blast
  from top_pairs_ok_cell [OF this, of "int i"] top(2) assms(3)
  obtain m where "cell_between N (int i) m" by auto
  from cell_between_strict [OF this assms(1)]
  show ?thesis by (simp add: add.commute)
qed

lemma control_grid_strict:
  assumes "2 \<le> n" and "n \<le> 517"
  shows "control_grid_ascending n"
proof -
  define f where "f = (\<lambda>i. np_round2 (sqrt (real i * (100 / real_of_int (n - 1)))))"
  have grid: "control_grid n = Inr (map f [0 ..< nat n])"
    using assms control_grid_Inr [of n] by (simp add: f_def)
  have step: "f i < f (Suc i)" if "Suc i < nat n" for i
    unfolding f_def by (rule neighbours_apart) (use assms that in simp_all)
  have "transp ((<) :: real \<Rightarrow> real \<Rightarrow> bool)" by (rule transp_on_less)
  then have sorted: "sorted_wrt (<) (map f [0 ..< nat n])"
    using step by (simp add: sorted_wrt_iff_nth_Suc_transp)
  then have "distinct (map f [0 ..< nat n])"
    by (simp add: strict_sorted_iff)
  with sorted grid show ?thesis by (simp add: control_grid_ascending_def)
qed

lemma control_grid_sorted:
  assumes "0 \<le> n"
  shows "control_grid_nondecreasing n"
proof -
  define c :: real where "c = (if n - 1 > 0 then 100 / real_of_int (n - 1) else 100)"
  define f where "f = (\<lambda>i. np_round2 (sqrt (real i * c)))"
  have grid: "control_grid n = Inr (map f [0 ..< nat n])"
    using assms control_grid_Inr [of n] by (simp add: f_def c_def)
  have c_pos: "0 \<le> c" by (simp add: c_def)
  have step: "f i \<le> f j" if "i < j" for i j
  proof -
    have "real i \<le> real j" using that by simp
    then have "real i * c \<le> real j * c" using c_pos by (rule mult_right_mono)
    then have "sqrt (real i * c) \<le> sqrt (real j * c)" by simp
    then show ?thesis unfolding f_def by (rule np_round2_mono)
  qed
  have "sorted_wrt (\<le>) (map f [0 ..< nat n])"
    by (rule sorted_wrt_map_upt) (rule step)
  with grid show ?thesis by (simp add: control_grid_nondecreasing_def)
qed

lemma control_grid_518_equal_neighbours:
  "\<exists>g. control_grid 518 = Inr g \<and> g ! 494 = 978 / 100 \<and> g ! 495 = 978 / 100"
proof -
  have a: "np_round2 (sqrt (49400 / 517)) = 978 / 100"
    using np_round2_sqrt_eqI [of 978 "49400 / 517"] by (simp add: power2_eq_square)
  have b: "np_round2 (sqrt (49500 / 517)) = 978 / 100"
    using np_round2_sqrt_eqI [of 978 "49500 / 517"] by (simp add: power2_eq_square)
  show ?thesis
    using control_grid_Inr [of 518] a b by simp
qed

text \<open>
  C5, as the code has it. For every \<open>n_grid\<close> from 2 to 517 the grid has \<open>n_grid\<close>
  distinct, strictly increasing entries. For every \<open>n_grid\<close> that is not negative it has
  \<open>n_grid\<close> entries in non-decreasing order.
\<close>

theorem control_grid_order:
  "(2 \<le> n \<and> n \<le> 517 \<longrightarrow> control_grid_ascending n)
   \<and> (0 \<le> n \<longrightarrow> control_grid_nondecreasing n)"
  using control_grid_strict [of n] control_grid_sorted [of n] by blast

theorem control_grid_order_witness:
  "(2::int) \<le> 4 \<and> (4::int) \<le> 517 \<and> control_grid_ascending 4 \<and> control_grid_nondecreasing 4"
  using control_grid_order [of 4] by simp

text \<open>
  C5, as stated, fails from the next size on: with \<open>n_grid = 518\<close> the entries at indices
  494 and 495 are both 9.78, so the grid is not strictly increasing.
\<close>

theorem control_grid_518_not_ascending:
  "(2::int) \<le> 518 \<and> \<not> control_grid_ascending 518"
proof -
  have "\<not> control_grid_ascending 518"
  proof
    assume asc: "control_grid_ascending 518"
    from control_grid_518_equal_neighbours obtain g
      where g: "control_grid 518 = Inr g" "g ! 494 = 978 / 100" "g ! 495 = 978 / 100"
      by auto
    from asc g(1) have "length g = 518" "sorted_wrt (<) g"
      by (simp_all add: control_grid_ascending_def)
    then have "g ! 494 < g ! 495"
      using sorted_wrt_nth_less [of "(<)" g 494 495] by simp
    with g show False by simp
  qed
  then show ?thesis by simp
qed

section \<open>Properties of the control cycle\<close>

subsection \<open>What one cycle does to the channels\<close>

lemma brs_control_first_read_fails:
  assumes "faulty w (length (trace w))"
  shows "brs_control site neg lo up n w =
    (Inl EzcaError, w\<lparr>log := log w @ [Starting (clock w)], trace := trace w @ [Read (channel_drift site)]\<rparr>)"
  using assms by (simp add: brs_control_def ezca_read_def info_def)

lemma brs_control_second_read_fails:
  assumes "\<not> faulty w (length (trace w))" and "faulty w (Suc (length (trace w)))"
  shows "brs_control site neg lo up n w =
    (Inl EzcaError, w\<lparr>log := log w @ [Starting (clock w)],
       trace := trace w @ [Read (channel_drift site), Read (channel_control site)]\<rparr>)"
  using assms by (simp add: brs_control_def ezca_read_def info_def)

lemma brs_control_reads_ok:
  assumes "reads_succeed w"
  shows "brs_control site neg lo up n w =
    (let d = channel_drift site; c = channel_control site;
         drift = np_round2 (chan w d); control = np_round2 (chan w c);
         w3 = w\<lparr>log := log w @ [Starting (clock w)], trace := trace w @ [Read d, Read c]\<rparr>
     in case control_grid n of
          Inl e \<Rightarrow> (Inl e, w3)
        | Inr grid \<Rightarrow>
           (let w5 = w3\<lparr>log := log w3 @ [Current drift control, threshold_message drift lo up]\<rparr>
            in case control_next grid control (increase_temperature drift lo up neg) of
                 Inl e \<Rightarrow> (Inl e, w5)
               | Inr nxt \<Rightarrow>
                   if control \<noteq> nxt
                   then ezca_write c nxt (w5\<lparr>log := log w5 @ [Setting c control nxt]\<rparr>)
                   else (Inr (), w5\<lparr>log := log w5 @ [DoingNothing]\<rparr>)))"
  using assms
  by (simp add: brs_control_def ezca_read_def info_def reads_succeed_def Let_def
      split: sum.splits)


lemma brs_control_reads_fail:
  assumes "\<not> reads_succeed w"
  shows "\<exists>w'. brs_control site neg lo up n w = (Inl EzcaError, w') \<and> chan w' = chan w
    \<and> (trace w' = trace w @ [Read (channel_drift site)]
       \<or> trace w' = trace w @ [Read (channel_drift site), Read (channel_control site)])"
proof (cases "faulty w (length (trace w))")
  case True
  then show ?thesis by (simp add: brs_control_first_read_fails)
next
  case False
  with assms have "faulty w (Suc (length (trace w)))" by (simp add: reads_succeed_def)
  with False show ?thesis by (simp add: brs_control_second_read_fails)
qed

lemma cycle_change:
  assumes "reads_succeed w" and "decided_next site neg lo up n w = Inr nxt"
    and "nxt \<noteq> np_round2 (chan w (channel_control site))"
  shows "trace (snd (brs_control site neg lo up n w)) =
      trace w @ [Read (channel_drift site), Read (channel_control site),
                 Write (channel_control site) nxt]
    \<and> chan (snd (brs_control site neg lo up n w)) =
        (if faulty w (length (trace w) + 2) then chan w
         else (chan w)(channel_control site := nxt))"
  using assms
  by (auto simp: brs_control_reads_ok decided_next_def ezca_write_def Let_def
      split: sum.splits)

lemma cycle_no_change:
  assumes "reads_succeed w"
    and "decided_next site neg lo up n w = Inr (np_round2 (chan w (channel_control site)))"
  shows "trace (snd (brs_control site neg lo up n w)) =
      trace w @ [Read (channel_drift site), Read (channel_control site)]
    \<and> chan (snd (brs_control site neg lo up n w)) = chan w
    \<and> fst (brs_control site neg lo up n w) = Inr ()"
  using assms
  by (auto simp: brs_control_reads_ok decided_next_def Let_def split: sum.splits)

lemma cycle_no_value:
  assumes "reads_succeed w" and "decided_next site neg lo up n w = Inl e"
  shows "trace (snd (brs_control site neg lo up n w)) =
      trace w @ [Read (channel_drift site), Read (channel_control site)]
    \<and> chan (snd (brs_control site neg lo up n w)) = chan w
    \<and> fst (brs_control site neg lo up n w) = Inl e"
  using assms
  by (auto simp: brs_control_reads_ok decided_next_def Let_def split: sum.splits)

lemma cycle_read_fails:
  assumes "\<not> reads_succeed w"
  shows "chan (snd (brs_control site neg lo up n w)) = chan w
    \<and> fst (brs_control site neg lo up n w) = Inl EzcaError
    \<and> (trace (snd (brs_control site neg lo up n w)) = trace w @ [Read (channel_drift site)]
       \<or> trace (snd (brs_control site neg lo up n w)) =
           trace w @ [Read (channel_drift site), Read (channel_control site)])"
  using brs_control_reads_fail [OF assms, of site neg lo up n] by auto

lemma np_round2_6: "np_round2 6 = 6"
  by (simp add: np_round2_def rint_def)

lemma np_round2_9000: "np_round2 9000 = 9000"
  by (simp add: np_round2_def rint_def)

lemma decided_next_decrease:
  "decided_next ''ITMX'' False (- 8192) 8192 4 (initial_world 9000 6 f) = Inr (577 / 100)"
  by (simp add: decided_next_def control_grid_4 initial_world_def channel_drift_def
      channel_control_def np_round2_6 np_round2_9000 increase_temperature_def
      control_next_def np_argmin_def walk_down.simps)

lemma decided_next_hold:
  "decided_next ''ITMX'' False (- 8192) 8192 4 (initial_world 0 6 f) = Inr 6"
  by (simp add: decided_next_def control_grid_4 initial_world_def channel_drift_def
      channel_control_def np_round2_6 np_round2_0 increase_temperature_def
      control_next_def np_argmin_def)

text \<open>
  C7. In one cycle a write to the actuator channel is attempted exactly when both reads
  succeeded and the computed next value differs from the rounded current command value;
  the write then comes after the two reads and carries the computed value. When the
  next value equals the current one, or when a read fails, nothing is written and every
  channel keeps its value.
\<close>

theorem write_only_on_change:
  "(writes_of (trace (snd (brs_control site neg lo up n w))) \<noteq> writes_of (trace w)) =
      (reads_succeed w \<and>
        (case decided_next site neg lo up n w of
           Inl e \<Rightarrow> False
         | Inr nxt \<Rightarrow> nxt \<noteq> np_round2 (chan w (channel_control site))))
   \<and> (reads_succeed w \<and> decided_next site neg lo up n w = Inr nxt
        \<and> nxt \<noteq> np_round2 (chan w (channel_control site)) \<longrightarrow>
       trace (snd (brs_control site neg lo up n w)) =
         trace w @ [Read (channel_drift site), Read (channel_control site),
                    Write (channel_control site) nxt])
   \<and> (reads_succeed w
        \<and> decided_next site neg lo up n w = Inr (np_round2 (chan w (channel_control site))) \<longrightarrow>
       trace (snd (brs_control site neg lo up n w)) =
         trace w @ [Read (channel_drift site), Read (channel_control site)]
       \<and> chan (snd (brs_control site neg lo up n w)) = chan w)
   \<and> (\<not> reads_succeed w \<longrightarrow>
       writes_of (trace (snd (brs_control site neg lo up n w))) = writes_of (trace w)
       \<and> chan (snd (brs_control site neg lo up n w)) = chan w)"
proof -
  let ?w' = "snd (brs_control site neg lo up n w)"
  let ?c = "np_round2 (chan w (channel_control site))"
  have fail: "writes_of (trace ?w') = writes_of (trace w) \<and> chan ?w' = chan w"
    if "\<not> reads_succeed w"
    using cycle_read_fails [OF that, of site neg lo up n] by (auto simp: writes_of_def)
  have first: "(writes_of (trace ?w') \<noteq> writes_of (trace w)) =
      (reads_succeed w \<and>
        (case decided_next site neg lo up n w of Inl e \<Rightarrow> False | Inr nxt \<Rightarrow> nxt \<noteq> ?c))"
  proof (cases "reads_succeed w")
    case False
    with fail show ?thesis by simp
  next
    case True
    show ?thesis
    proof (cases "decided_next site neg lo up n w")
      case (Inl e)
      with True cycle_no_value [OF True Inl] show ?thesis by (simp add: writes_of_def)
    next
      case (Inr nxt)
      show ?thesis
      proof (cases "nxt = ?c")
        case True
        with Inr \<open>reads_succeed w\<close> cycle_no_change [of w site neg lo up n]
        show ?thesis by (simp add: writes_of_def)
      next
        case False
        with Inr True cycle_change [OF True Inr False] show ?thesis
          by (simp add: writes_of_def)
      qed
    qed
  qed
  show ?thesis
    using first fail cycle_change [of w site neg lo up n nxt] cycle_no_change [of w site neg lo up n]
    by blast
qed

theorem write_only_on_change_witness:
  "reads_succeed (initial_world 9000 6 (\<lambda>k. False))
   \<and> decided_next ''ITMX'' False (- 8192) 8192 4 (initial_world 9000 6 (\<lambda>k. False)) = Inr (577 / 100)
   \<and> trace (snd (brs_control ''ITMX'' False (- 8192) 8192 4 (initial_world 9000 6 (\<lambda>k. False)))) =
       [Read ''ISI-GND_BRS_ITMX_DRIFTMON'', Read ''ISI-GND_BRS_ITMX_HEATCTRLIN'',
        Write ''ISI-GND_BRS_ITMX_HEATCTRLIN'' (577 / 100)]
   \<and> reads_succeed (initial_world 0 6 (\<lambda>k. False))
   \<and> decided_next ''ITMX'' False (- 8192) 8192 4 (initial_world 0 6 (\<lambda>k. False)) = Inr 6
   \<and> trace (snd (brs_control ''ITMX'' False (- 8192) 8192 4 (initial_world 0 6 (\<lambda>k. False)))) =
       [Read ''ISI-GND_BRS_ITMX_DRIFTMON'', Read ''ISI-GND_BRS_ITMX_HEATCTRLIN'']
   \<and> \<not> reads_succeed (initial_world 9000 6 (\<lambda>k. k = 1))
   \<and> writes_of (trace (snd (brs_control ''ITMX'' False (- 8192) 8192 4
         (initial_world 9000 6 (\<lambda>k. k = 1))))) = []"
  using
    write_only_on_change [of "''ITMX''" False "- 8192" 8192 4 "initial_world 9000 6 (\<lambda>k. False)" "577 / 100"]
    write_only_on_change [of "''ITMX''" False "- 8192" 8192 4 "initial_world 0 6 (\<lambda>k. False)" 6]
    write_only_on_change [of "''ITMX''" False "- 8192" 8192 4 "initial_world 9000 6 (\<lambda>k. k = 1)" 0]
    decided_next_decrease [of "\<lambda>k. False"] decided_next_hold [of "\<lambda>k. False"]
  by (simp add: reads_succeed_def initial_world_def channel_drift_def channel_control_def
      np_round2_6 writes_of_def)

section \<open>Properties of the scheduler and of the main program\<close>

subsection \<open>An error in a cycle\<close>

lemma brs_control_error_not_interrupt:
  "brs_control site neg lo up n w = (Inl e, w1) \<Longrightarrow> e = EzcaError \<or> e = ValueError"
  by (auto simp: brs_control_def ezca_read_def ezca_write_def info_def Let_def
      control_grid_def np_linspace_0_100_def control_next_def np_argmin_def
      split: sum.splits if_splits prod.splits list.splits option.splits bool.splits)

text \<open>
  C8, as the code has it. A cycle whose first read fails raises the channel error after
  logging only its start. Whatever error a cycle raises, \<open>schedule_run\<close> does not catch
  it: the first call under \<open>start_now\<close> and every call in the loop end the scheduler
  with that error, in the state the cycle left, so no later cycle runs and the
  scheduler logs nothing about the failure.
\<close>

theorem cycle_error_ends_schedule:
  "(faulty w (length (trace w)) \<longrightarrow>
      fst (brs_control site neg lo up n w) = Inl EzcaError
      \<and> log (snd (brs_control site neg lo up n w)) = log w @ [Starting (clock w)])
   \<and> (brs_control site neg lo up n w = (Inl e, w1) \<longrightarrow>
        schedule_run (brs_control site neg lo up n) True h fuel w = (Raised e, w1)
        \<and> (time_next < clock w \<longrightarrow>
             schedule_loop (Suc fuel) (brs_control site neg lo up n) td ts time_next w
               = (Raised e, w1)))"
proof (intro conjI impI)
  assume "faulty w (length (trace w))"
  then show "fst (brs_control site neg lo up n w) = Inl EzcaError"
    and "log (snd (brs_control site neg lo up n w)) = log w @ [Starting (clock w)]"
    by (simp_all add: brs_control_first_read_fails)
next
  assume r: "brs_control site neg lo up n w = (Inl e, w1)"
  then show "schedule_run (brs_control site neg lo up n) True h fuel w = (Raised e, w1)"
    by (simp add: schedule_run_def)
  assume "time_next < clock w"
  moreover from brs_control_error_not_interrupt [OF r] have "e \<noteq> KeyboardInterrupt" by auto
  ultimately show "schedule_loop (Suc fuel) (brs_control site neg lo up n) td ts time_next w
      = (Raised e, w1)"
    using r by (simp add: on_exception_def)
qed

theorem cycle_error_ends_schedule_witness:
  "faulty (initial_world 9000 6 (\<lambda>k. k = 0)) (length (trace (initial_world 9000 6 (\<lambda>k. k = 0))))
   \<and> fst (brs_control ''ITMX'' False (- 8192) 8192 4 (initial_world 9000 6 (\<lambda>k. k = 0)))
       = Inl EzcaError
   \<and> fst (schedule_run (brs_control ''ITMX'' False (- 8192) 8192 4) True 1 5
          (initial_world 9000 6 (\<lambda>k. k = 0))) = Raised EzcaError
   \<and> (- 1 :: real) < clock (initial_world 9000 6 (\<lambda>k. k = 0))
   \<and> fst (schedule_loop (Suc 5) (brs_control ''ITMX'' False (- 8192) 8192 4) 3600 360 (- 1)
          (initial_world 9000 6 (\<lambda>k. k = 0))) = Raised EzcaError"
proof -
  let ?w = "initial_world 9000 6 (\<lambda>k. k = 0)"
  let ?f = "brs_control ''ITMX'' False (- 8192) 8192 4"
  have bad: "faulty ?w (length (trace ?w))" by (simp add: initial_world_def)
  have t: "(- 1 :: real) < clock ?w" by (simp add: initial_world_def)
  have r: "?f ?w = (Inl EzcaError, snd (?f ?w))"
    using bad by (simp add: brs_control_first_read_fails)
  from cycle_error_ends_schedule
    [of ?w "''ITMX''" False "- 8192" 8192 4 EzcaError "snd (?f ?w)" 1 5 "- 1" 3600 360]
    bad t r
  show ?thesis by simp
qed

text \<open>
  C8, as stated, fails: with a one-hour interval the first cycle runs in the twelfth
  iteration of the loop; its first read fails, and the scheduler ends with the channel
  error. The failed read is the only channel access of the run, although no later
  access would fail and eight more iterations are observed.
\<close>

theorem hardware_error_is_fatal:
  "fst (schedule_run (brs_control ''ITMX'' False (- 8192) 8192 64) False 1 20
          (initial_world 9000 6 (\<lambda>k. k = 0))) = Raised EzcaError
   \<and> trace (snd (schedule_run (brs_control ''ITMX'' False (- 8192) 8192 64) False 1 20
          (initial_world 9000 6 (\<lambda>k. k = 0)))) = [Read ''ISI-GND_BRS_ITMX_DRIFTMON'']"
  by (simp add: schedule_run_def eval_nat_numeral sleep_def info_def initial_world_def
      brs_control_first_read_fails on_exception_def channel_drift_def)

subsection \<open>No configuration file\<close>

text \<open>
  C9 asks for a usage error when neither \<open>--config\<close> nor \<open>--get-config\<close> is given. The
  code guards the reading of the configuration by \<open>config_path is not None\<close> and then
  passes \<open>None\<close> to \<open>os.path.splitext\<close>: the program ends with an uncaught
  \<open>TypeError\<close>, before any channel access.
\<close>

theorem main_without_config:
  "main rd \<lparr>config = None, get_config = False\<rparr> fuel w = (Raised TypeError, w)"
  by (simp add: main_def os_path_splitext_def)

subsection \<open>The sample configuration\<close>

lemma str_8192: "str_nat 8192 = ''8192''"
  by (simp add: str_nat.simps)

text \<open>
  C10. \<open>generate_sample_config\<close> writes the file \<open>brs_control_sample.ini\<close>, whose section
  \<open>Default\<close> sets \<open>threshold_lower\<close> to 8192 and \<open>threshold_upper\<close> to -8192, the
  lower threshold above the upper one. Under \<open>--get-config\<close> the main program does
  this and exits: it accesses no channel and runs no cycle.
\<close>

theorem sample_config_thresholds:
  "(case files (generate_sample_config w) ''brs_control_sample.ini'' of
      None \<Rightarrow> False
    | Some ini \<Rightarrow>
        (case map_of ini ''Default'' of
           None \<Rightarrow> False
         | Some kv \<Rightarrow> map_of kv ''threshold_lower'' = Some ''8192''
             \<and> map_of kv ''threshold_upper'' = Some ''-8192''))
   \<and> (\<exists>lower upper.
        map_of sample_default ''threshold_lower'' = Some (PInt lower)
        \<and> map_of sample_default ''threshold_upper'' = Some (PInt upper)
        \<and> lower = 8192 \<and> upper = - 8192 \<and> upper < lower)
   \<and> (get_config opts \<longrightarrow>
        main rd opts fuel w = (Exited, generate_sample_config w)
        \<and> trace (generate_sample_config w) = trace w
        \<and> chan (generate_sample_config w) = chan w)"
  by (simp add: generate_sample_config_def sample_path_def sample_default_def str_8192
      main_def info_def)

theorem sample_config_thresholds_witness:
  "get_config \<lparr>config = None, get_config = True\<rparr>
   \<and> fst (main (\<lambda>p w. Inl ValueError) \<lparr>config = None, get_config = True\<rparr> 7
        (initial_world 9000 6 (\<lambda>k. False))) = Exited
   \<and> trace (snd (main (\<lambda>p w. Inl ValueError) \<lparr>config = None, get_config = True\<rparr> 7
        (initial_world 9000 6 (\<lambda>k. False)))) = []"
  using sample_config_thresholds
    [of "initial_world 9000 6 (\<lambda>k. False)" "\<lparr>config = None, get_config = True\<rparr>"
      "\<lambda>p w. Inl ValueError" 7]
  by (simp add: initial_world_def)

end
